theory Spec2Isabelle
  imports Main "HOL-Library.Sublist"
begin

section \<open>Python values used by the mock generator\<close>

text \<open>
  A Python \<open>str\<close> is a sequence of Unicode code points. A code point is modelled as a
  natural number, a string as the list of its code points, so that the \<open>[A-Z]\<close> and
  \<open>[a-z]\<close> classes of the regular expression and equality of strings are what they are
  in Python. \<open>py\<close> turns an ASCII literal of the source into such a string.
\<close>

type_synonym codepoint = nat
type_synonym pystr = "codepoint list"

definition py :: "string \<Rightarrow> pystr" where
  "py s = map of_char s"

text \<open>The two exceptions that indexing and \<open>%\<close> can raise in \<open>extract_relations\<close>.\<close>

datatype py_error = IndexError | ZeroDivisionError

text \<open>\<open>xs[i]\<close> for an index \<open>i \<ge> 0\<close>: IndexError when out of range.\<close>

definition py_index :: "'a list \<Rightarrow> nat \<Rightarrow> py_error + 'a" where
  "py_index xs i = (if i < length xs then Inr (xs ! i) else Inl IndexError)"

text \<open>\<open>a % b\<close> for non-negative \<open>a\<close> and \<open>b\<close>: ZeroDivisionError when \<open>b\<close> is 0.\<close>

definition py_mod :: "nat \<Rightarrow> nat \<Rightarrow> py_error + nat" where
  "py_mod a b = (if b = 0 then Inl ZeroDivisionError else Inr (a mod b))"

text \<open>\<open>str(n)\<close> for an integer \<open>n \<ge> 0\<close>, as the f-string \<open>f"e{i+1}"\<close> formats it:
  the decimal digits, most significant first (code point 48 is the digit 0).\<close>

fun str_nat :: "nat \<Rightarrow> pystr" where
  "str_nat n = (if n < 10 then [48 + n] else str_nat (n div 10) @ [48 + n mod 10])"

declare str_nat.simps [simp del]

text \<open>
  What it means for a string to be the decimal numeral of a number, said without
  \<open>str_nat\<close>: \<open>is_decimal\<close> holds of a non-empty string of the digits \<open>0\<close> to \<open>9\<close>
  (code points 48 to 57) with no leading zero, the string \<open>0\<close> itself apart, and
  \<open>decimal_value\<close> reads such a string in base ten. The ids that the loop formats are
  compared with these.
\<close>

definition decimal_value :: "pystr \<Rightarrow> nat" where
  "decimal_value ds = foldl (\<lambda>a d. 10 * a + (d - 48)) 0 ds"

definition is_decimal :: "pystr \<Rightarrow> bool" where
  "is_decimal ds =
     (ds \<noteq> [] \<and> (\<forall>d\<in>set ds. 48 \<le> d \<and> d \<le> 57) \<and> (hd ds = 48 \<longrightarrow> ds = [48]))"

section \<open>The regular expression \<open>\b[A-Z][a-z]+\b\<close>\<close>

text \<open>
  The pattern is a \<open>str\<close> pattern without flags: \<open>[A-Z]\<close> and \<open>[a-z]\<close> are the ASCII
  ranges, and \<open>\b\<close> is the Unicode word boundary. A word character is an ASCII letter,
  an ASCII digit, the underscore, or a code point from 128 on that Python's Unicode
  database classifies as alphanumeric; that table belongs to the Python runtime and is
  the parameter \<open>uw\<close>.
\<close>

definition ascii_upper :: "codepoint \<Rightarrow> bool" where
  "ascii_upper c = (65 \<le> c \<and> c \<le> 90)"

definition ascii_lower :: "codepoint \<Rightarrow> bool" where
  "ascii_lower c = (97 \<le> c \<and> c \<le> 122)"

definition is_word :: "(codepoint \<Rightarrow> bool) \<Rightarrow> codepoint \<Rightarrow> bool" where
  "is_word uw c =
     (ascii_upper c \<or> ascii_lower c \<or> (48 \<le> c \<and> c \<le> 57) \<or> c = 95 \<or> (128 \<le> c \<and> uw c))"

text \<open>\<open>\b\<close> at position \<open>p\<close>: exactly one of the characters before and after \<open>p\<close>
  is a word character (the outside of the text counts as a non-word character).\<close>

definition word_boundary :: "(codepoint \<Rightarrow> bool) \<Rightarrow> pystr \<Rightarrow> nat \<Rightarrow> bool" where
  "word_boundary uw text p =
     ((0 < p \<and> p \<le> length text \<and> is_word uw (text ! (p - 1)))
       \<noteq> (p < length text \<and> is_word uw (text ! p)))"

text \<open>
  A match attempt at position \<open>p\<close>, giving the end position of the match: \<open>\b\<close>,
  one \<open>[A-Z]\<close>, then \<open>[a-z]+\<close> greedily, that is the longest run of lower-case letters
  first and shorter ones (down to one letter) on backtracking, until the closing
  \<open>\b\<close> holds.
\<close>

definition match_at :: "(codepoint \<Rightarrow> bool) \<Rightarrow> pystr \<Rightarrow> nat \<Rightarrow> nat option" where
  "match_at uw text p =
     (if word_boundary uw text p \<and> p < length text \<and> ascii_upper (text ! p) then
        (let n = length (takeWhile ascii_lower (drop (p + 1) text)) in
         case find (\<lambda>k. word_boundary uw text (p + 1 + k)) (rev [1..<n + 1]) of
           None \<Rightarrow> None
         | Some k \<Rightarrow> Some (p + 1 + k))
      else None)"

text \<open>
  \<open>re.findall\<close>: scan from left to right; a match is recorded and the scan goes on at
  its end, otherwise the scan moves one position to the right.
\<close>

function findall_from :: "(codepoint \<Rightarrow> bool) \<Rightarrow> pystr \<Rightarrow> nat \<Rightarrow> pystr list" where
  "findall_from uw text p =
     (if length text < p then []
      else case match_at uw text p of
             Some e \<Rightarrow> take (e - p) (drop p text) # findall_from uw text e
           | None \<Rightarrow> findall_from uw text (p + 1))"
  by pat_completeness auto
termination
  by (relation "measure (\<lambda>(uw, text, p). length text + 1 - p)")
     (auto simp: match_at_def Let_def split: if_splits option.splits)

declare findall_from.simps [simp del]

definition findall :: "(codepoint \<Rightarrow> bool) \<Rightarrow> pystr \<Rightarrow> pystr list" where
  "findall uw text = findall_from uw text 0"

section \<open>The mock generator\<close>

record entity =
  ent_id :: pystr
  ent_label :: pystr
  ent_type :: pystr

record triple =
  subject :: pystr
  predicate :: pystr
  object :: pystr

definition days :: "pystr list" where
  "days = map py [''Monday'', ''Tuesday'', ''Wednesday'', ''Thursday'', ''Friday'',
                  ''Saturday'', ''Sunday'']"

definition months :: "pystr list" where
  "months = map py [''January'', ''February'', ''March'', ''April'', ''May'', ''June'',
                    ''July'', ''August'', ''September'', ''October'', ''November'',
                    ''December'']"

definition cities :: "pystr list" where
  "cities = map py [''Paris'', ''London'', ''Berlin'', ''Rome'', ''Madrid'', ''Vienna'',
                    ''Amsterdam'']"

definition countries :: "pystr list" where
  "countries = map py [''France'', ''Germany'', ''Italy'', ''Spain'', ''Netherlands'',
                       ''Austria'', ''UK'', ''United'']"

text \<open>The \<open>if\<close>/\<open>elif\<close> chain of the loop body that picks \<open>entity_type\<close>.\<close>

definition entity_type :: "pystr \<Rightarrow> pystr" where
  "entity_type word =
     (if word \<in> set days then py ''Day''
      else if word \<in> set months then py ''Month''
      else if word \<in> set cities then py ''City''
      else if word \<in> set countries then py ''Country''
      else py ''Concept'')"

text \<open>
  The loop \<open>for i, word in enumerate(set(words))\<close>, run over the sequence \<open>ws\<close> that
  iterating the set yields, with the counter \<open>i\<close> and the two accumulators.
\<close>

fun entities_loop ::
  "nat \<Rightarrow> pystr list \<Rightarrow> entity list \<Rightarrow> (pystr \<rightharpoonup> pystr) \<Rightarrow> entity list \<times> (pystr \<rightharpoonup> pystr)"
where
  "entities_loop i [] entities entity_map = (entities, entity_map)"
| "entities_loop i (word # ws) entities entity_map =
     (let entity_id = py ''e'' @ str_nat (i + 1) in
      entities_loop (i + 1) ws
        (entities @ [\<lparr>ent_id = entity_id, ent_label = word, ent_type = entity_type word\<rparr>])
        (entity_map(word \<mapsto> entity_id)))"

text \<open>
  Iterating \<open>set(words)\<close> yields every distinct word once, in an order that Python does
  not fix. The iteration is the parameter \<open>iter\<close>, from the list of words to the
  sequence the loop sees; \<open>set_iteration\<close> says what every Python run guarantees.
\<close>

definition set_iteration :: "(pystr list \<Rightarrow> pystr list) \<Rightarrow> bool" where
  "set_iteration iter = (\<forall>ws. distinct (iter ws) \<and> set (iter ws) = set ws)"

definition extract_entities ::
  "(codepoint \<Rightarrow> bool) \<Rightarrow> (pystr list \<Rightarrow> pystr list) \<Rightarrow> pystr
     \<Rightarrow> entity list \<times> (pystr \<rightharpoonup> pystr)"
where
  "extract_entities uw iter text =
     (let words = findall uw text in entities_loop 0 (iter words) [] Map.empty)"

definition relation_types :: "pystr list" where
  "relation_types = map py [''relates_to'', ''part_of'', ''associated_with'', ''belongs_to'']"

text \<open>The loop \<open>for i in range(...)\<close> that appends one triple per index.\<close>

fun triples_loop ::
  "entity list \<Rightarrow> pystr list \<Rightarrow> nat list \<Rightarrow> triple list \<Rightarrow> py_error + triple list"
where
  "triples_loop entities selected_relations [] triples = Inr triples"
| "triples_loop entities selected_relations (i # is) triples =
     (case py_index entities i of
        Inl err \<Rightarrow> Inl err
      | Inr subject_entity \<Rightarrow>
     (case py_mod (i + 1) (length entities) of
        Inl err \<Rightarrow> Inl err
      | Inr j \<Rightarrow>
     (case py_index entities j of
        Inl err \<Rightarrow> Inl err
      | Inr object_entity \<Rightarrow>
     (case py_mod i (length selected_relations) of
        Inl err \<Rightarrow> Inl err
      | Inr k \<Rightarrow>
     (case py_index selected_relations k of
        Inl err \<Rightarrow> Inl err
      | Inr relation \<Rightarrow>
          triples_loop entities selected_relations is
            (triples @ [\<lparr>subject = ent_id subject_entity, predicate = relation,
                          object = ent_id object_entity\<rparr>]))))))"

definition extract_relations ::
  "entity list \<Rightarrow> (pystr \<rightharpoonup> pystr) \<Rightarrow> py_error + (pystr list \<times> triple list)"
where
  "extract_relations entities entity_map =
     (if length entities < 2 then Inr ([], [])
      else
        (let selected_relations =
               (if length entities = 2 then take 1 relation_types
                else take (min (length entities - 1) (length relation_types)) relation_types)
         in case triples_loop entities selected_relations
                   [0..<min (length entities - 1) 5] [] of
              Inl err \<Rightarrow> Inl err
            | Inr triples \<Rightarrow> Inr (selected_relations, triples)))"

section \<open>Example inputs\<close>

text \<open>
  ASCII texts (no code point from 128 on, so the Unicode table is never consulted) and
  their entities when the set of words is iterated in order of first occurrence.
\<close>

definition example_text :: pystr where
  "example_text = py ''Paris is nice in June.''"

definition example_entities :: "entity list" where
  "example_entities = fst (extract_entities (\<lambda>c. False) remdups example_text)"

definition long_text :: pystr where
  "long_text = py ''Ann Bob Cy Rome May Spain Ed''"

definition long_entities :: "entity list" where
  "long_entities = fst (extract_entities (\<lambda>c. False) remdups long_text)"

definition typed_text :: pystr where
  "typed_text = py ''Monday June Berlin France Zed''"

definition typed_entities :: "entity list" where
  "typed_entities = fst (extract_entities (\<lambda>c. False) remdups typed_text)"

definition single_text :: pystr where
  "single_text = py ''only Paris here''"

definition plain_text :: pystr where
  "plain_text = py ''mcD _Rome berlin2 A UK''"

definition repeat_text :: pystr where
  "repeat_text = py ''Al Bo Cy Di Ed Al Flo Gus Hal Ian Jo Bo''"

definition repeat_entities :: "entity list" where
  "repeat_entities = fst (extract_entities (\<lambda>c. False) remdups repeat_text)"

section \<open>Auxiliary facts\<close>

lemma length_relation_types: "length relation_types = 4"
  by (simp add: relation_types_def)

lemma triples_loop_Inr:
  assumes "\<forall>i\<in>set is. i + 1 < length entities" and "sel \<noteq> []"
  shows "triples_loop entities sel is acc =
           Inr (acc @ map (\<lambda>i. \<lparr>subject = ent_id (entities ! i),
                                 predicate = sel ! (i mod length sel),
                                 object = ent_id (entities ! ((i + 1) mod length entities))\<rparr>) is)"
  using assms
proof (induction "is" arbitrary: acc)
  case Nil
  show ?case by simp
next
  case (Cons i "is")
  from Cons.prems have i: "i < length entities" "i + 1 < length entities"
    "length entities \<noteq> 0" by auto
  from Cons.prems have k: "i mod length sel < length sel" by simp
  from Cons.prems have rest: "\<forall>i\<in>set is. i + 1 < length entities" by simp
  show ?case
    using i k Cons.prems(2) Cons.IH [OF rest Cons.prems(2)]
    by (simp add: py_index_def py_mod_def)
qed

lemma extract_relations_eq:
  assumes "2 \<le> length entities"
  shows "extract_relations entities entity_map =
           Inr (take (min (length entities - 1) 4) relation_types,
                map (\<lambda>i. \<lparr>subject = ent_id (entities ! i),
                          predicate = take (min (length entities - 1) 4) relation_types
                                        ! (i mod min (length entities - 1) 4),
                          object = ent_id (entities ! ((i + 1) mod length entities))\<rparr>)
                    [0..<min (length entities - 1) 5])"
proof -
  let ?sel = "take (min (length entities - 1) 4) relation_types"
  have sel: "?sel \<noteq> []" using assms by (simp add: relation_types_def)
  have len: "length ?sel = min (length entities - 1) 4"
    by (simp add: length_relation_types)
  have rng: "\<forall>i\<in>set [0..<min (length entities - 1) 5]. i + 1 < length entities"
    using assms by auto
  have selq: "(if length entities = 2 then take 1 relation_types
               else take (min (length entities - 1) (length relation_types)) relation_types)
              = ?sel"
    by (simp add: length_relation_types)
  have tl: "triples_loop entities ?sel [0..<min (length entities - 1) 5] [] =
              Inr (map (\<lambda>i. \<lparr>subject = ent_id (entities ! i),
                          predicate = ?sel ! (i mod min (length entities - 1) 4),
                          object = ent_id (entities ! ((i + 1) mod length entities))\<rparr>)
                    [0..<min (length entities - 1) 5])"
    using triples_loop_Inr [OF rng sel, of "[]"] unfolding len by simp
  have ge: "\<not> length entities < 2" using assms by simp
  show ?thesis
    unfolding extract_relations_def Let_def selq tl using ge by simp
qed

lemma str_nat_value: "foldl (\<lambda>a d. 10 * a + (d - 48)) 0 (str_nat n) = n"
proof (induction n rule: str_nat.induct)
  case (1 n)
  show ?case
  proof (cases "n < 10")
    case True
    then show ?thesis by (simp add: str_nat.simps [of n])
  next
    case False
    with "1" show ?thesis by (simp add: str_nat.simps [of n])
  qed
qed

lemma str_nat_inj: "str_nat m = str_nat n \<Longrightarrow> m = n"
  by (metis str_nat_value)

lemma str_nat_nonempty: "str_nat n \<noteq> []"
  by (subst str_nat.simps) simp

lemma str_nat_digits: "d \<in> set (str_nat n) \<Longrightarrow> 48 \<le> d \<and> d \<le> 57"
proof (induction n rule: str_nat.induct)
  case (1 n)
  show ?case
  proof (cases "n < 10")
    case True
    with "1.prems" show ?thesis by (simp add: str_nat.simps [of n])
  next
    case False
    have "n mod 10 < 10" by simp
    then have "48 + n mod 10 \<le> 57" by arith
    with False "1.prems" "1.IH" show ?thesis
      by (auto simp: str_nat.simps [of n])
  qed
qed

lemma str_nat_hd: "hd (str_nat n) = 48 \<Longrightarrow> n = 0"
proof (induction n rule: str_nat.induct)
  case (1 n)
  show ?case
  proof (cases "n < 10")
    case True
    with "1.prems" show ?thesis by (simp add: str_nat.simps [of n])
  next
    case False
    with "1.prems" have "hd (str_nat (n div 10)) = 48"
      by (simp add: str_nat.simps [of n] str_nat_nonempty)
    with False "1.IH" have "n div 10 = 0" by simp
    with False show ?thesis by simp
  qed
qed

lemma str_nat_0: "str_nat 0 = [48]"
  by (simp add: str_nat.simps)

lemma str_nat_is_decimal: "is_decimal (str_nat n)"
  unfolding is_decimal_def
proof (intro conjI ballI impI)
  show "str_nat n \<noteq> []" by (rule str_nat_nonempty)
next
  fix d assume "d \<in> set (str_nat n)"
  then show "48 \<le> d" "d \<le> 57" using str_nat_digits by blast+
next
  assume "hd (str_nat n) = 48"
  then have "n = 0" by (rule str_nat_hd)
  then show "str_nat n = [48]" by (simp add: str_nat_0)
qed

lemma str_nat_decimal_value: "decimal_value (str_nat n) = n"
  unfolding decimal_value_def by (rule str_nat_value)

lemma decimal_value_pos:
  "ds \<noteq> [] \<Longrightarrow> \<forall>d\<in>set ds. 48 \<le> d \<Longrightarrow> hd ds \<noteq> 48 \<Longrightarrow> 0 < decimal_value ds"
proof (induction ds rule: rev_induct)
  case Nil
  then show ?case by simp
next
  case (snoc d ds)
  show ?case
  proof (cases "ds = []")
    case True
    with snoc.prems show ?thesis by (simp add: decimal_value_def)
  next
    case False
    with snoc.prems have "hd ds \<noteq> 48" "\<forall>d\<in>set ds. 48 \<le> d" by simp_all
    with False snoc.IH have "0 < decimal_value ds" by simp
    then show ?thesis by (simp add: decimal_value_def)
  qed
qed

lemma str_nat_of_decimal: "is_decimal ds \<Longrightarrow> str_nat (decimal_value ds) = ds"
proof (induction ds rule: rev_induct)
  case Nil
  then show ?case by (simp add: is_decimal_def)
next
  case (snoc d ds)
  from snoc.prems have d: "48 \<le> d" "d \<le> 57" by (simp_all add: is_decimal_def)
  show ?case
  proof (cases "ds = []")
    case True
    with d show ?thesis by (simp add: decimal_value_def str_nat.simps)
  next
    case False
    with snoc.prems have h: "hd ds \<noteq> 48" and r: "\<forall>d\<in>set ds. 48 \<le> d \<and> d \<le> 57"
      by (auto simp: is_decimal_def)
    with False have dec: "is_decimal ds" by (simp add: is_decimal_def)
    from False h r have pos: "0 < decimal_value ds" by (simp add: decimal_value_pos)
    have v: "decimal_value (ds @ [d]) = 10 * decimal_value ds + (d - 48)"
      by (simp add: decimal_value_def)
    from pos d have big: "\<not> 10 * decimal_value ds + (d - 48) < 10" by simp
    from d have k: "d - 48 < 10" "48 + (d - 48) = d" by arith+
    from k(1) have q: "(10 * decimal_value ds + (d - 48)) div 10 = decimal_value ds"
      by simp
    have gen: "k < 10 \<Longrightarrow> (10 * v + k) mod 10 = k" for k v :: nat by simp
    have m: "48 + (10 * decimal_value ds + (d - 48)) mod 10 = d"
      unfolding gen [OF k(1)] by (rule k(2))
    show ?thesis
      unfolding v
      by (subst str_nat.simps) (simp only: big if_False q m snoc.IH [OF dec])
  qed
qed

lemma decimal_unique:
  "is_decimal a \<Longrightarrow> is_decimal b \<Longrightarrow> decimal_value a = decimal_value b \<Longrightarrow> a = b"
  by (metis str_nat_of_decimal)

lemma first_id: "py ''e'' @ str_nat (0 + 1) = py ''e1''"
  by code_simp

lemma tenth_id: "py ''e'' @ str_nat (9 + 1) = py ''e10''"
  by code_simp

lemma entities_loop_fst:
  "fst (entities_loop i ws entities entity_map) =
     entities @ map (\<lambda>(j, word). \<lparr>ent_id = py ''e'' @ str_nat (j + 1), ent_label = word,
                                  ent_type = entity_type word\<rparr>) (enumerate i ws)"
  by (induction ws arbitrary: i entities entity_map) (simp_all add: Let_def)


lemma extract_relations_small:
  "length entities < 2 \<Longrightarrow> extract_relations entities entity_map = Inr ([], [])"
  by (simp add: extract_relations_def)

lemma entities_loop_labels:
  "map ent_label (fst (entities_loop i ws entities entity_map)) = map ent_label entities @ ws"
  by (induction ws arbitrary: i entities entity_map) (simp_all add: Let_def)

lemma entities_loop_ids:
  "map ent_id (fst (entities_loop i ws entities entity_map)) =
     map ent_id entities @ map (\<lambda>j. py ''e'' @ str_nat (j + 1)) [i..<i + length ws]"
proof (induction ws arbitrary: i entities entity_map)
  case Nil
  show ?case by simp
next
  case (Cons word ws)
  have "i < Suc i + length ws" by simp
  then have "[i..<Suc i + length ws] = i # [Suc i..<Suc i + length ws]"
    by (rule upt_conv_Cons)
  moreover have "i + length (word # ws) = Suc i + length ws" by simp
  ultimately have u: "[i..<i + length (word # ws)] = i # [Suc i..<Suc i + length ws]"
    by (simp only:)
  show ?case
    unfolding u by (simp add: Let_def Cons.IH del: upt_Suc)
qed

lemma entities_loop_types:
  "e \<in> set (fst (entities_loop i ws entities entity_map)) \<Longrightarrow>
     e \<in> set entities \<or> ent_type e = entity_type (ent_label e)"
proof (induction ws arbitrary: i entities entity_map)
  case Nil
  then show ?case by simp
next
  case (Cons word ws)
  let ?new = "\<lparr>ent_id = py ''e'' @ str_nat (i + 1), ent_label = word,
                ent_type = entity_type word\<rparr>"
  from Cons.prems
  have "e \<in> set (fst (entities_loop (i + 1) ws (entities @ [?new])
                         (entity_map(word \<mapsto> py ''e'' @ str_nat (i + 1)))))"
    by (simp add: Let_def)
  from Cons.IH [OF this] show ?case by auto
qed

lemma py_eq_iff: "py a = py b \<longleftrightarrow> a = b"
  by (simp add: py_def inj_map_eq_map [OF inj_of_char])

lemma entity_id_inj: "inj_on (\<lambda>j. py ''e'' @ str_nat (j + 1)) A"
  by (rule inj_onI) (auto dest: str_nat_inj)

section \<open>The examples, evaluated\<close>

lemma set_iteration_remdups: "set_iteration remdups"
  by (simp add: set_iteration_def)

lemma example_entities_value:
  "example_entities =
     [\<lparr>ent_id = py ''e1'', ent_label = py ''Paris'', ent_type = py ''City''\<rparr>,
      \<lparr>ent_id = py ''e2'', ent_label = py ''June'', ent_type = py ''Month''\<rparr>]"
  by code_simp

lemma long_entities_value:
  "long_entities =
     [\<lparr>ent_id = py ''e1'', ent_label = py ''Ann'', ent_type = py ''Concept''\<rparr>,
      \<lparr>ent_id = py ''e2'', ent_label = py ''Bob'', ent_type = py ''Concept''\<rparr>,
      \<lparr>ent_id = py ''e3'', ent_label = py ''Cy'', ent_type = py ''Concept''\<rparr>,
      \<lparr>ent_id = py ''e4'', ent_label = py ''Rome'', ent_type = py ''City''\<rparr>,
      \<lparr>ent_id = py ''e5'', ent_label = py ''May'', ent_type = py ''Month''\<rparr>,
      \<lparr>ent_id = py ''e6'', ent_label = py ''Spain'', ent_type = py ''Country''\<rparr>,
      \<lparr>ent_id = py ''e7'', ent_label = py ''Ed'', ent_type = py ''Concept''\<rparr>]"
  by code_simp

lemma typed_entities_value:
  "typed_entities =
     [\<lparr>ent_id = py ''e1'', ent_label = py ''Monday'', ent_type = py ''Day''\<rparr>,
      \<lparr>ent_id = py ''e2'', ent_label = py ''June'', ent_type = py ''Month''\<rparr>,
      \<lparr>ent_id = py ''e3'', ent_label = py ''Berlin'', ent_type = py ''City''\<rparr>,
      \<lparr>ent_id = py ''e4'', ent_label = py ''France'', ent_type = py ''Country''\<rparr>,
      \<lparr>ent_id = py ''e5'', ent_label = py ''Zed'', ent_type = py ''Concept''\<rparr>]"
  by code_simp

lemma repeat_labels:
  "map ent_label repeat_entities =
     map py [''Cy'', ''Di'', ''Ed'', ''Al'', ''Flo'', ''Gus'', ''Hal'', ''Ian'', ''Jo'', ''Bo'']"
  by code_simp

lemma repeat_ids:
  "map ent_id repeat_entities =
     map py [''e1'', ''e2'', ''e3'', ''e4'', ''e5'', ''e6'', ''e7'', ''e8'', ''e9'', ''e10'']"
  by code_simp


lemma single_words: "findall (\<lambda>c. False) single_text = [py ''Paris'']"
  by code_simp

lemma plain_words: "findall (\<lambda>c. False) plain_text = []"
  by code_simp

lemma long_triples_length:
  "length (snd (projr (extract_relations long_entities Map.empty))) = 5"
  unfolding long_entities_value by code_simp

section \<open>Relations and triples\<close>

text \<open>
  C1. For an entity list of length \<open>N \<ge> 2\<close>, \<open>extract_relations\<close> returns exactly
  \<open>min (N - 1) 5\<close> triples; triple \<open>i\<close> has the id of \<open>entities[i]\<close> as subject, the id
  of \<open>entities[(i + 1) mod N]\<close> as object and \<open>relations[i mod len(relations)]\<close> as
  predicate; so every subject and object is the id of one of the entities.
\<close>

theorem extract_relations_triples:
  assumes "2 \<le> length entities"
  shows "\<exists>relations triples.
           extract_relations entities entity_map = Inr (relations, triples) \<and>
           length triples = min (length entities - 1) 5 \<and>
           (\<forall>i<length triples.
              subject (triples ! i) = ent_id (entities ! i) \<and>
              object (triples ! i) = ent_id (entities ! ((i + 1) mod length entities)) \<and>
              predicate (triples ! i) = relations ! (i mod length relations)) \<and>
           (\<forall>t\<in>set triples.
              subject t \<in> ent_id ` set entities \<and> object t \<in> ent_id ` set entities)"
proof -
  let ?n = "length entities"
  let ?sel = "take (min (?n - 1) 4) relation_types"
  let ?mk = "\<lambda>i. \<lparr>subject = ent_id (entities ! i),
                   predicate = ?sel ! (i mod min (?n - 1) 4),
                   object = ent_id (entities ! ((i + 1) mod ?n))\<rparr>"
  let ?ts = "map ?mk [0..<min (?n - 1) 5]"
  have eq: "extract_relations entities entity_map = Inr (?sel, ?ts)"
    by (rule extract_relations_eq [OF assms])
  have len_sel: "length ?sel = min (?n - 1) 4"
    by (simp add: length_relation_types)
  have len: "length ?ts = min (?n - 1) 5" by simp
  have nth: "subject (?ts ! i) = ent_id (entities ! i) \<and>
             object (?ts ! i) = ent_id (entities ! ((i + 1) mod ?n)) \<and>
             predicate (?ts ! i) = ?sel ! (i mod length ?sel)"
    if "i < length ?ts" for i
    using that unfolding len_sel by simp
  have mem: "subject t \<in> ent_id ` set entities \<and> object t \<in> ent_id ` set entities"
    if "t \<in> set ?ts" for t
  proof -
    from that obtain i where i: "i < min (?n - 1) 5" and t: "t = ?mk i" by auto
    from i have "i < ?n" by arith
    then have s: "entities ! i \<in> set entities" by (rule nth_mem)
    from assms have "0 < ?n" by (cases entities) simp_all
    then have "(i + 1) mod ?n < ?n" by (rule mod_less_divisor)
    then have ob: "entities ! ((i + 1) mod ?n) \<in> set entities" by (rule nth_mem)
    from s ob show ?thesis unfolding t by simp
  qed
  from eq len nth mem show ?thesis by blast
qed

theorem extract_relations_triples_witness:
  "2 \<le> length long_entities \<and>
   (\<exists>relations triples.
           extract_relations long_entities Map.empty = Inr (relations, triples) \<and>
           length triples = min (length long_entities - 1) 5 \<and>
           (\<forall>i<length triples.
              subject (triples ! i) = ent_id (long_entities ! i) \<and>
              object (triples ! i) =
                ent_id (long_entities ! ((i + 1) mod length long_entities)) \<and>
              predicate (triples ! i) = relations ! (i mod length relations)) \<and>
           (\<forall>t\<in>set triples.
              subject t \<in> ent_id ` set long_entities \<and>
              object t \<in> ent_id ` set long_entities))"
proof -
  have h: "2 \<le> length long_entities" by (simp add: long_entities_value)
  show ?thesis
    using h extract_relations_triples [OF h, of Map.empty] by (rule conjI)
qed

text \<open>
  C2. For an entity list of length \<open>N \<ge> 2\<close>, the relations returned are the prefix of
  length \<open>min (N - 1) 4\<close> of the four relation types \<open>relates_to\<close>, \<open>part_of\<close>,
  \<open>associated_with\<close>, \<open>belongs_to\<close>; for \<open>N = 2\<close> that is \<open>[relates_to]\<close>.
\<close>

theorem extract_relations_relations:
  assumes "2 \<le> length entities"
  shows "\<exists>relations triples.
           extract_relations entities entity_map = Inr (relations, triples) \<and>
           relations = take (min (length entities - 1) 4)
                         [py ''relates_to'', py ''part_of'', py ''associated_with'',
                          py ''belongs_to''] \<and>
           prefix relations [py ''relates_to'', py ''part_of'', py ''associated_with'',
                             py ''belongs_to''] \<and>
           length relations = min (length entities - 1) 4 \<and>
           (length entities = 2 \<longrightarrow> relations = [py ''relates_to''])"
proof -
  let ?n = "length entities"
  let ?sel = "take (min (?n - 1) 4) relation_types"
  from extract_relations_eq [OF assms]
  obtain triples where eq: "extract_relations entities entity_map = Inr (?sel, triples)"
    by blast
  have rt: "relation_types = [py ''relates_to'', py ''part_of'', py ''associated_with'',
                              py ''belongs_to'']"
    by (simp add: relation_types_def)
  have pre: "prefix ?sel relation_types" by (rule take_is_prefix)
  have len: "length ?sel = min (?n - 1) 4" by (simp add: length_relation_types)
  have two: "?n = 2 \<longrightarrow> ?sel = [py ''relates_to'']" by (simp add: rt)
  from eq pre len two show ?thesis unfolding rt by blast
qed

theorem extract_relations_relations_witness:
  "2 \<le> length example_entities \<and> length example_entities = 2 \<and>
   (\<exists>relations triples.
      extract_relations example_entities Map.empty = Inr (relations, triples) \<and>
      prefix relations [py ''relates_to'', py ''part_of'', py ''associated_with'',
                        py ''belongs_to''] \<and>
      length relations = min (length example_entities - 1) 4 \<and>
      relations = [py ''relates_to''])"
proof -
  have h: "2 \<le> length example_entities" by (simp add: example_entities_value)
  have two: "length example_entities = 2" by (simp add: example_entities_value)
  from extract_relations_relations [OF h, of Map.empty] two h show ?thesis by blast
qed

text \<open>
  C3. With fewer than two entities, \<open>extract_relations\<close> returns no relations and no
  triples; a text with fewer than two capitalised-word tokens gives fewer than two
  entities, hence no relations and no triples.
\<close>

theorem fewer_than_two_entities:
  "(length entities < 2 \<longrightarrow> extract_relations entities entity_map = Inr ([], [])) \<and>
   (set_iteration iter \<and> length (findall uw text) < 2 \<longrightarrow>
      length (fst (extract_entities uw iter text)) < 2 \<and>
      extract_relations (fst (extract_entities uw iter text))
        (snd (extract_entities uw iter text)) = Inr ([], []))"
proof (intro conjI impI)
  assume "length entities < 2"
  then show "extract_relations entities entity_map = Inr ([], [])"
    by (rule extract_relations_small)
next
  assume a: "set_iteration iter \<and> length (findall uw text) < 2"
  let ?ws = "findall uw text"
  from a have d: "distinct (iter ?ws)" and s: "set (iter ?ws) = set ?ws"
    by (simp_all add: set_iteration_def)
  have "length (iter ?ws) = card (set ?ws)"
    using distinct_card [OF d] s by simp
  also have "\<dots> \<le> length ?ws" by (rule card_length)
  finally have "length (iter ?ws) < 2" using a by simp
  then show l: "length (fst (extract_entities uw iter text)) < 2"
    by (simp add: extract_entities_def entities_loop_fst)
  then show "extract_relations (fst (extract_entities uw iter text))
        (snd (extract_entities uw iter text)) = Inr ([], [])"
    by (rule extract_relations_small)
qed

theorem fewer_than_two_entities_witness:
  "length ([] :: entity list) < 2 \<and>
   extract_relations [] Map.empty = Inr ([], []) \<and>
   set_iteration remdups \<and> length (findall (\<lambda>c. False) single_text) < 2 \<and>
   length (fst (extract_entities (\<lambda>c. False) remdups single_text)) < 2 \<and>
   extract_relations (fst (extract_entities (\<lambda>c. False) remdups single_text))
     (snd (extract_entities (\<lambda>c. False) remdups single_text)) = Inr ([], [])"
proof -
  have a: "length ([] :: entity list) < 2" by simp
  have b: "set_iteration remdups" by (rule set_iteration_remdups)
  have c: "length (findall (\<lambda>c. False) single_text) < 2" by (simp add: single_words)
  from fewer_than_two_entities [of "[]" Map.empty remdups "\<lambda>c. False" single_text] a b c
  show ?thesis by blast
qed

text \<open>
  C4. With exactly two entities there is one relation and one triple, from the id of the
  first entity to the id of the second.
\<close>

theorem exactly_two_entities:
  assumes "length entities = 2"
  shows "\<exists>relations triples.
           extract_relations entities entity_map = Inr (relations, triples) \<and>
           length relations = 1 \<and> length triples = 1 \<and>
           subject (triples ! 0) = ent_id (entities ! 0) \<and>
           object (triples ! 0) = ent_id (entities ! 1)"
proof -
  from assms have ge: "2 \<le> length entities" by simp
  show ?thesis
    unfolding extract_relations_eq [OF ge] using assms
    by (simp add: length_relation_types)
qed

theorem exactly_two_entities_witness:
  "length example_entities = 2 \<and>
   (\<exists>relations triples.
      extract_relations example_entities Map.empty = Inr (relations, triples) \<and>
      length relations = 1 \<and> length triples = 1 \<and>
      subject (triples ! 0) = ent_id (example_entities ! 0) \<and>
      object (triples ! 0) = ent_id (example_entities ! 1))"
proof -
  have two: "length example_entities = 2" by (simp add: example_entities_value)
  from exactly_two_entities [OF two, of Map.empty] two show ?thesis by blast
qed

text \<open>
  C9. When the ids of the entities are pairwise distinct, the subject of every triple
  differs from its object.
\<close>

theorem subject_differs_from_object:
  assumes "distinct (map ent_id entities)"
  shows "\<exists>relations triples.
           extract_relations entities entity_map = Inr (relations, triples) \<and>
           (\<forall>t\<in>set triples. subject t \<noteq> object t)"
proof (cases "length entities < 2")
  case True
  then show ?thesis by (simp add: extract_relations_small)
next
  case False
  then have ge: "2 \<le> length entities" by simp
  have "ent_id (entities ! i) \<noteq> ent_id (entities ! ((i + 1) mod length entities))"
    if "i < min (length entities - 1) 5" for i
  proof -
    from that have i: "i < length entities" and j: "i + 1 < length entities" by arith+
    from j have m: "(i + 1) mod length entities = i + 1" by simp
    have "map ent_id entities ! i \<noteq> map ent_id entities ! (i + 1)"
      using assms i j by (simp add: nth_eq_iff_index_eq del: nth_map)
    with i j show ?thesis unfolding m by simp
  qed
  then show ?thesis
    unfolding extract_relations_eq [OF ge] by auto
qed

theorem subject_differs_from_object_witness:
  "distinct (map ent_id long_entities) \<and>
   (\<exists>relations triples.
      extract_relations long_entities Map.empty = Inr (relations, triples) \<and>
      length triples = 5 \<and> (\<forall>t\<in>set triples. subject t \<noteq> object t))"
proof -
  have d: "distinct (map ent_id long_entities)"
    unfolding long_entities_value by code_simp
  note n = long_triples_length
  from subject_differs_from_object [OF d, of Map.empty] obtain relations triples where
    a: "extract_relations long_entities Map.empty = Inr (relations, triples)" and
    b: "\<forall>t\<in>set triples. subject t \<noteq> object t" by blast
  from a n have "length triples = 5" by simp
  with a b d show ?thesis by blast
qed

text \<open>
  C10. The predicate of every triple is one of the returned relations.
\<close>

theorem predicate_in_relations:
  "\<exists>relations triples.
     extract_relations entities entity_map = Inr (relations, triples) \<and>
     (\<forall>t\<in>set triples. predicate t \<in> set relations)"
proof (cases "length entities < 2")
  case True
  then show ?thesis by (simp add: extract_relations_small)
next
  case False
  then have ge: "2 \<le> length entities" by simp
  let ?sel = "take (min (length entities - 1) 4) relation_types"
  have len: "length ?sel = min (length entities - 1) 4"
    by (simp add: length_relation_types)
  have "?sel ! (i mod min (length entities - 1) 4) \<in> set ?sel" for i
  proof -
    from ge have "0 < min (length entities - 1) 4" by simp
    then have "i mod min (length entities - 1) 4 < length ?sel"
      unfolding len by (rule mod_less_divisor)
    then show ?thesis by (rule nth_mem)
  qed
  then show ?thesis
    unfolding extract_relations_eq [OF ge] by auto
qed

theorem predicate_in_relations_witness:
  "\<exists>relations triples.
      extract_relations long_entities Map.empty = Inr (relations, triples) \<and>
      length triples = 5 \<and> (\<forall>t\<in>set triples. predicate t \<in> set relations)"
proof -
  note n = long_triples_length
  from predicate_in_relations [of long_entities Map.empty] obtain relations triples where
    a: "extract_relations long_entities Map.empty = Inr (relations, triples)" and
    b: "\<forall>t\<in>set triples. predicate t \<in> set relations" by blast
  from a n have "length triples = 5" by simp
  with a b show ?thesis by blast
qed

section \<open>Entities\<close>

text \<open>
  C5. The type of an entity is a function of its label alone, fixed by the four lookup
  lists: \<open>Day\<close> for a label in the days list (such as \<open>Monday\<close>), \<open>Month\<close> for one in
  the months list, \<open>City\<close> for one in the cities list (such as \<open>Berlin\<close>), \<open>Country\<close>
  for one in the countries list and \<open>Concept\<close> for every other label.
\<close>

theorem entity_type_from_label:
  assumes "e \<in> set (fst (extract_entities uw iter text))"
  shows "ent_type e = entity_type (ent_label e) \<and>
         (ent_label e \<in> set days \<longrightarrow> ent_type e = py ''Day'') \<and>
         (ent_label e \<in> set months \<longrightarrow> ent_type e = py ''Month'') \<and>
         (ent_label e \<in> set cities \<longrightarrow> ent_type e = py ''City'') \<and>
         (ent_label e \<in> set countries \<longrightarrow> ent_type e = py ''Country'') \<and>
         (ent_label e \<notin> set days \<union> set months \<union> set cities \<union> set countries \<longrightarrow>
            ent_type e = py ''Concept'') \<and>
         entity_type (py ''Monday'') = py ''Day'' \<and>
         entity_type (py ''Berlin'') = py ''City''"
proof -
  have t: "ent_type e = entity_type (ent_label e)"
    using assms entities_loop_types [of e 0 _ "[]" Map.empty]
    by (simp add: extract_entities_def)
  have d: "w \<in> set days \<Longrightarrow> entity_type w = py ''Day''" for w
    by (simp add: entity_type_def)
  have m: "w \<in> set months \<Longrightarrow> entity_type w = py ''Month''" for w
    by (auto simp: entity_type_def days_def months_def py_eq_iff)
  have c: "w \<in> set cities \<Longrightarrow> entity_type w = py ''City''" for w
    by (auto simp: entity_type_def days_def months_def cities_def py_eq_iff)
  have k: "w \<in> set countries \<Longrightarrow> entity_type w = py ''Country''" for w
    by (auto simp: entity_type_def days_def months_def cities_def countries_def py_eq_iff)
  have o: "w \<notin> set days \<union> set months \<union> set cities \<union> set countries \<Longrightarrow>
             entity_type w = py ''Concept''" for w
    by (simp add: entity_type_def)
  have monday: "py ''Monday'' \<in> set days" by (simp add: days_def)
  have berlin: "py ''Berlin'' \<in> set cities" by (simp add: cities_def)
  from t d m c k o d [OF monday] c [OF berlin] show ?thesis by simp
qed

theorem entity_type_from_label_witness:
  "typed_entities ! 0 \<in> set typed_entities \<and>
   ent_label (typed_entities ! 0) \<in> set days \<and> ent_type (typed_entities ! 0) = py ''Day'' \<and>
   typed_entities ! 1 \<in> set typed_entities \<and>
   ent_label (typed_entities ! 1) \<in> set months \<and> ent_type (typed_entities ! 1) = py ''Month'' \<and>
   typed_entities ! 2 \<in> set typed_entities \<and>
   ent_label (typed_entities ! 2) \<in> set cities \<and> ent_type (typed_entities ! 2) = py ''City'' \<and>
   typed_entities ! 3 \<in> set typed_entities \<and>
   ent_label (typed_entities ! 3) \<in> set countries \<and>
   ent_type (typed_entities ! 3) = py ''Country'' \<and>
   typed_entities ! 4 \<in> set typed_entities \<and>
   ent_label (typed_entities ! 4) \<notin> set days \<union> set months \<union> set cities \<union> set countries \<and>
   ent_type (typed_entities ! 4) = py ''Concept''"
proof -
  note inst = entity_type_from_label [of _ "\<lambda>c. False" remdups typed_text,
      folded typed_entities_def]
  have m0: "typed_entities ! 0 \<in> set typed_entities"
    and m1: "typed_entities ! 1 \<in> set typed_entities"
    and m2: "typed_entities ! 2 \<in> set typed_entities"
    and m3: "typed_entities ! 3 \<in> set typed_entities"
    and m4: "typed_entities ! 4 \<in> set typed_entities"
    by (simp_all add: typed_entities_value)
  have l0: "ent_label (typed_entities ! 0) \<in> set days"
    by (simp add: typed_entities_value days_def)
  have l1: "ent_label (typed_entities ! 1) \<in> set months"
    by (simp add: typed_entities_value months_def)
  have l2: "ent_label (typed_entities ! 2) \<in> set cities"
    by (simp add: typed_entities_value cities_def)
  have l3: "ent_label (typed_entities ! 3) \<in> set countries"
    by (simp add: typed_entities_value countries_def)
  have l4: "ent_label (typed_entities ! 4) \<notin> set days \<union> set months \<union> set cities \<union> set countries"
    by (simp add: typed_entities_value days_def months_def cities_def countries_def
        py_eq_iff)
  note t0 = inst [OF m0, THEN conjunct2, THEN conjunct1, THEN mp, OF l0]
  note t1 = inst [OF m1, THEN conjunct2, THEN conjunct2, THEN conjunct1, THEN mp, OF l1]
  note t2 = inst [OF m2, THEN conjunct2, THEN conjunct2, THEN conjunct2, THEN conjunct1,
      THEN mp, OF l2]
  note t3 = inst [OF m3, THEN conjunct2, THEN conjunct2, THEN conjunct2, THEN conjunct2,
      THEN conjunct1, THEN mp, OF l3]
  note t4 = inst [OF m4, THEN conjunct2, THEN conjunct2, THEN conjunct2, THEN conjunct2,
      THEN conjunct2, THEN conjunct1, THEN mp, OF l4]
  from m0 l0 t0 m1 l1 t1 m2 l2 t2 m3 l3 t3 m4 l4 t4 show ?thesis by (intro conjI)
qed

text \<open>
  C6. The labels of the entities are the words that \<open>re.findall\<close> returns, each once,
  in the order in which the set is iterated; the ids are \<open>e1\<close>, \<open>e2\<close>, ..., \<open>eN\<close> in that
  order, and they are pairwise distinct. The id of the entity at index \<open>i\<close> is the letter
  \<open>e\<close> followed by the decimal numeral of \<open>i + 1\<close>: digits only, no leading zero, of
  value \<open>i + 1\<close>; so the first id is \<open>e1\<close> and the tenth is \<open>e10\<close>.
\<close>

theorem extract_entities_labels_ids:
  assumes "set_iteration iter"
  shows "\<exists>entities entity_map.
           extract_entities uw iter text = (entities, entity_map) \<and>
           map ent_label entities = iter (findall uw text) \<and>
           distinct (map ent_label entities) \<and>
           set (map ent_label entities) = set (findall uw text) \<and>
           map ent_id entities = map (\<lambda>i. py ''e'' @ str_nat (i + 1)) [0..<length entities] \<and>
           (\<forall>i<length entities.
              \<exists>ds. ent_id (entities ! i) = py ''e'' @ ds \<and> is_decimal ds \<and>
                   decimal_value ds = i + 1) \<and>
           (0 < length entities \<longrightarrow> ent_id (entities ! 0) = py ''e1'') \<and>
           (9 < length entities \<longrightarrow> ent_id (entities ! 9) = py ''e10'') \<and>
           distinct (map ent_id entities)"
proof -
  let ?ws = "iter (findall uw text)"
  obtain entities entity_map where
    eq: "extract_entities uw iter text = (entities, entity_map)"
    by (cases "extract_entities uw iter text")
  then have f: "entities = fst (entities_loop 0 ?ws [] Map.empty)"
    by (simp add: extract_entities_def)
  have lab: "map ent_label entities = ?ws"
    unfolding f by (simp add: entities_loop_labels)
  then have "length (map ent_label entities) = length ?ws" by simp
  then have len: "length entities = length ?ws" by simp
  have ids: "map ent_id entities =
               map (\<lambda>i. py ''e'' @ str_nat (i + 1)) [0..<length entities]"
    unfolding len unfolding f by (simp add: entities_loop_ids)
  have dl: "distinct (map ent_label entities)" "set (map ent_label entities) = set (findall uw text)"
    unfolding lab using assms by (simp_all add: set_iteration_def)
  have di: "distinct (map ent_id entities)"
    unfolding ids using entity_id_inj [of "{0..<length entities}"]
    by (simp add: distinct_map)
  have nth_id: "ent_id (entities ! i) = py ''e'' @ str_nat (i + 1)" if "i < length entities" for i
  proof -
    from that have "ent_id (entities ! i) = map ent_id entities ! i" by simp
    also have "\<dots> = map (\<lambda>i. py ''e'' @ str_nat (i + 1)) [0..<length entities] ! i"
      by (simp only: ids)
    also from that have "\<dots> = py ''e'' @ str_nat (i + 1)" by simp
    finally show ?thesis .
  qed
  have num: "\<forall>i<length entities.
               \<exists>ds. ent_id (entities ! i) = py ''e'' @ ds \<and> is_decimal ds \<and>
                    decimal_value ds = i + 1"
    using nth_id str_nat_is_decimal str_nat_decimal_value by blast
  have first: "0 < length entities \<longrightarrow> ent_id (entities ! 0) = py ''e1''"
  proof
    assume "0 < length entities"
    from nth_id [OF this] show "ent_id (entities ! 0) = py ''e1''"
      by (simp only: first_id)
  qed
  have tenth: "9 < length entities \<longrightarrow> ent_id (entities ! 9) = py ''e10''"
  proof
    assume "9 < length entities"
    from nth_id [OF this] show "ent_id (entities ! 9) = py ''e10''"
      by (simp only: tenth_id)
  qed
  from eq lab dl ids num first tenth di show ?thesis by blast
qed

theorem extract_entities_labels_ids_witness:
  "set_iteration remdups \<and>
   (\<exists>entities entity_map.
      extract_entities (\<lambda>c. False) remdups repeat_text = (entities, entity_map) \<and>
      map ent_label entities = remdups (findall (\<lambda>c. False) repeat_text) \<and>
      map ent_label entities =
        map py [''Cy'', ''Di'', ''Ed'', ''Al'', ''Flo'', ''Gus'', ''Hal'', ''Ian'', ''Jo'',
                ''Bo''] \<and>
      distinct (map ent_label entities) \<and>
      set (map ent_label entities) = set (findall (\<lambda>c. False) repeat_text) \<and>
      map ent_id entities = map (\<lambda>i. py ''e'' @ str_nat (i + 1)) [0..<length entities] \<and>
      map ent_id entities =
        map py [''e1'', ''e2'', ''e3'', ''e4'', ''e5'', ''e6'', ''e7'', ''e8'', ''e9'',
                ''e10''] \<and>
      (\<forall>i<length entities.
         \<exists>ds. ent_id (entities ! i) = py ''e'' @ ds \<and> is_decimal ds \<and>
              decimal_value ds = i + 1) \<and>
      0 < length entities \<and> ent_id (entities ! 0) = py ''e1'' \<and>
      9 < length entities \<and> ent_id (entities ! 9) = py ''e10'' \<and>
      distinct (map ent_id entities))"
proof -
  have b: "set_iteration remdups" by (rule set_iteration_remdups)
  from extract_entities_labels_ids [OF b, of "\<lambda>c. False" repeat_text]
  obtain entities entity_map where
    e: "extract_entities (\<lambda>c. False) remdups repeat_text = (entities, entity_map)" and
    r1: "map ent_label entities = remdups (findall (\<lambda>c. False) repeat_text)" and
    r2: "distinct (map ent_label entities)" and
    r3: "set (map ent_label entities) = set (findall (\<lambda>c. False) repeat_text)" and
    r4: "map ent_id entities = map (\<lambda>i. py ''e'' @ str_nat (i + 1)) [0..<length entities]" and
    r5: "\<forall>i<length entities.
           \<exists>ds. ent_id (entities ! i) = py ''e'' @ ds \<and> is_decimal ds \<and>
                decimal_value ds = i + 1" and
    r6: "0 < length entities \<longrightarrow> ent_id (entities ! 0) = py ''e1''" and
    r7: "9 < length entities \<longrightarrow> ent_id (entities ! 9) = py ''e10''" and
    r8: "distinct (map ent_id entities)"
    by blast
  from e have same: "entities = repeat_entities" by (simp add: repeat_entities_def)
  have v1: "map ent_label entities =
        map py [''Cy'', ''Di'', ''Ed'', ''Al'', ''Flo'', ''Gus'', ''Hal'', ''Ian'', ''Jo'',
                ''Bo'']"
    unfolding same by (rule repeat_labels)
  have v2: "map ent_id entities =
        map py [''e1'', ''e2'', ''e3'', ''e4'', ''e5'', ''e6'', ''e7'', ''e8'', ''e9'',
                ''e10'']"
    unfolding same by (rule repeat_ids)
  from v2 have "length (map ent_id entities) = 10" by simp
  then have l: "0 < length entities" "9 < length entities" by simp_all
  from r6 l(1) have a1: "ent_id (entities ! 0) = py ''e1''" by (rule mp)
  from r7 l(2) have a10: "ent_id (entities ! 9) = py ''e10''" by (rule mp)
  have "extract_entities (\<lambda>c. False) remdups repeat_text = (entities, entity_map) \<and>
      map ent_label entities = remdups (findall (\<lambda>c. False) repeat_text) \<and>
      map ent_label entities =
        map py [''Cy'', ''Di'', ''Ed'', ''Al'', ''Flo'', ''Gus'', ''Hal'', ''Ian'', ''Jo'',
                ''Bo''] \<and>
      distinct (map ent_label entities) \<and>
      set (map ent_label entities) = set (findall (\<lambda>c. False) repeat_text) \<and>
      map ent_id entities = map (\<lambda>i. py ''e'' @ str_nat (i + 1)) [0..<length entities] \<and>
      map ent_id entities =
        map py [''e1'', ''e2'', ''e3'', ''e4'', ''e5'', ''e6'', ''e7'', ''e8'', ''e9'',
                ''e10''] \<and>
      (\<forall>i<length entities.
         \<exists>ds. ent_id (entities ! i) = py ''e'' @ ds \<and> is_decimal ds \<and>
              decimal_value ds = i + 1) \<and>
      0 < length entities \<and> ent_id (entities ! 0) = py ''e1'' \<and>
      9 < length entities \<and> ent_id (entities ! 9) = py ''e10'' \<and>
      distinct (map ent_id entities)"
    using e r1 v1 r2 r3 r4 v2 r5 l(1) a1 l(2) a10 r8 by (intro conjI)
  then have ex: "\<exists>entities entity_map.
      extract_entities (\<lambda>c. False) remdups repeat_text = (entities, entity_map) \<and>
      map ent_label entities = remdups (findall (\<lambda>c. False) repeat_text) \<and>
      map ent_label entities =
        map py [''Cy'', ''Di'', ''Ed'', ''Al'', ''Flo'', ''Gus'', ''Hal'', ''Ian'', ''Jo'',
                ''Bo''] \<and>
      distinct (map ent_label entities) \<and>
      set (map ent_label entities) = set (findall (\<lambda>c. False) repeat_text) \<and>
      map ent_id entities = map (\<lambda>i. py ''e'' @ str_nat (i + 1)) [0..<length entities] \<and>
      map ent_id entities =
        map py [''e1'', ''e2'', ''e3'', ''e4'', ''e5'', ''e6'', ''e7'', ''e8'', ''e9'',
                ''e10''] \<and>
      (\<forall>i<length entities.
         \<exists>ds. ent_id (entities ! i) = py ''e'' @ ds \<and> is_decimal ds \<and>
              decimal_value ds = i + 1) \<and>
      0 < length entities \<and> ent_id (entities ! 0) = py ''e1'' \<and>
      9 < length entities \<and> ent_id (entities ! 9) = py ''e10'' \<and>
      distinct (map ent_id entities)"
    by (intro exI)
  from b ex show ?thesis by (rule conjI)
qed

section \<open>No exception\<close>

text \<open>
  C7. \<open>extract_relations\<close> returns a result and raises neither IndexError nor
  ZeroDivisionError, on every entity list and so on the entities of every text;
  \<open>extract_entities\<close> is a total function, and a text without a capitalised word, the
  empty text among them, gives no entities.
\<close>

theorem no_error_raised:
  "(\<exists>relations triples.
      extract_relations entities entity_map = Inr (relations, triples)) \<and>
   (\<exists>ents emap relations triples.
      extract_entities uw iter text = (ents, emap) \<and>
      extract_relations ents emap = Inr (relations, triples)) \<and>
   (set_iteration iter \<and> findall uw text = [] \<longrightarrow>
      extract_entities uw iter text = ([], Map.empty)) \<and>
   (set_iteration iter \<longrightarrow> extract_entities uw iter [] = ([], Map.empty))"
proof -
  have r: "\<exists>relations triples. extract_relations es em = Inr (relations, triples)"
    for es :: "entity list" and em
  proof (cases "length es < 2")
    case True
    then show ?thesis by (simp add: extract_relations_small)
  next
    case False
    then have "2 \<le> length es" by simp
    from extract_relations_eq [OF this] show ?thesis by blast
  qed
  have both: "\<exists>ents emap relations triples.
      extract_entities uw iter text = (ents, emap) \<and>
      extract_relations ents emap = Inr (relations, triples)"
  proof -
    obtain ents emap where e: "extract_entities uw iter text = (ents, emap)"
      by (cases "extract_entities uw iter text")
    with r [of ents emap] show ?thesis by blast
  qed
  have none: "extract_entities uw iter t = ([], Map.empty)"
    if "set_iteration iter" "findall uw t = []" for t
  proof -
    from that have "set (iter []) = {}" by (simp add: set_iteration_def)
    then have "iter [] = []" by simp
    with that show ?thesis by (simp add: extract_entities_def)
  qed
  have f0: "findall uw [] = []"
    by (simp add: findall_def findall_from.simps [of uw "[]"] match_at_def)
  from r both none none [OF _ f0] show ?thesis by blast
qed

theorem no_error_raised_witness:
  "(\<exists>relations triples.
      extract_relations long_entities Map.empty = Inr (relations, triples)) \<and>
   (\<exists>ents emap relations triples.
      extract_entities (\<lambda>c. False) remdups plain_text = (ents, emap) \<and>
      extract_relations ents emap = Inr (relations, triples)) \<and>
   set_iteration remdups \<and> findall (\<lambda>c. False) plain_text = [] \<and>
   extract_entities (\<lambda>c. False) remdups plain_text = ([], Map.empty) \<and>
   extract_entities (\<lambda>c. False) remdups [] = ([], Map.empty)"
proof -
  have b: "set_iteration remdups" by (rule set_iteration_remdups)
  have f: "findall (\<lambda>c. False) plain_text = []" by (rule plain_words)
  from no_error_raised [of long_entities Map.empty "\<lambda>c. False" remdups plain_text] b f
  show ?thesis by blast
qed

end
